theory Spec2Isabelle
  imports Complex_Main "HOL-Library.AList"
begin

section \<open>The security engine of simulation.py\<close>

text \<open>
  The embedding follows \<^verbatim>\<open>class SecurityEngine\<close> and the module-level workflow
  functions of \<^verbatim>\<open>src/simulation.py\<close>.

  \<^item> Python's \<^verbatim>\<open>float\<close> values (timestamps, time-to-live settings, the anomaly score)
    are read as \<^typ>\<open>real\<close>, Python's \<^verbatim>\<open>int\<close> as \<^typ>\<open>int\<close>.
  \<^item> Every call of \<^verbatim>\<open>time.time()\<close> and of \<^verbatim>\<open>random.randint\<close> is an argument of
    the function that makes the call.
  \<^item> A \<^verbatim>\<open>dict\<close> is an association list in insertion order: \<^verbatim>\<open>d[k] = v\<close> is
    \<^const>\<open>AList.update\<close> (overwrite in place, else append), \<^verbatim>\<open>len(d)\<close> is
    \<^const>\<open>length\<close>, \<^verbatim>\<open>k in d\<close> is membership in the keys. A Python dict never holds a
    key twice; the lists built by the operations below never do either
    (lemma \<open>unique_keys_run\<close>).
  \<^item> \<^verbatim>\<open>log_event\<close> only feeds the on-screen log and the black box file; no function
    of the engine reads either, so the calls are left out of the engine's functions.
    The black box is modelled in a section of its own.
\<close>

record security_engine =
  approvals :: "(string \<times> real) list"
  approvals_ttl :: real
  required_engage :: int
  required_kill :: int
  ledger :: "(int \<times> real) list"
  nonce_ttl :: real
  key_epoch :: int
  key_rotate_interval :: real
  last_rotate :: real
  cmd_times :: "real list"
  rate_window :: real
  max_cmds :: int
  anomaly_score :: real

text \<open>\<^verbatim>\<open>SecurityEngine.__init__\<close>; \<open>now\<close> is its reading of the clock.\<close>

definition init :: "real \<Rightarrow> security_engine" where
  "init now =
     \<lparr> approvals = [], approvals_ttl = 12, required_engage = 2, required_kill = 2,
       ledger = [], nonce_ttl = 20,
       key_epoch = 0, key_rotate_interval = 45, last_rotate = now,
       cmd_times = [], rate_window = 6, max_cmds = 8,
       anomaly_score = 0 \<rparr>"

text \<open>\<^verbatim>\<open>rotate_keys_if_needed\<close> reads the clock twice.\<close>

definition rotate_keys_if_needed :: "security_engine \<Rightarrow> real \<Rightarrow> real \<Rightarrow> security_engine" where
  "rotate_keys_if_needed s now now' =
     (if now - last_rotate s > key_rotate_interval s
      then s\<lparr>key_epoch := key_epoch s + 1, last_rotate := now'\<rparr>
      else s)"

definition clear_old_approvals :: "security_engine \<Rightarrow> real \<Rightarrow> security_engine" where
  "clear_old_approvals s now =
     s\<lparr>approvals := filter (\<lambda>(k, t). now - t \<le> approvals_ttl s) (approvals s)\<rparr>"

definition add_approval :: "security_engine \<Rightarrow> string \<Rightarrow> real \<Rightarrow> security_engine" where
  "add_approval s officer now = s\<lparr>approvals := AList.update officer now (approvals s)\<rparr>"

text \<open>\<^verbatim>\<open>approvals_ok\<close> returns its verdict and the engine with the stale approvals removed.\<close>

definition approvals_ok :: "security_engine \<Rightarrow> string \<Rightarrow> real \<Rightarrow> bool \<times> security_engine" where
  "approvals_ok s action now =
     (let s' = clear_old_approvals s now;
          count = int (length (approvals s'));
          need = (if action = ''engage'' then required_engage s' else required_kill s')
      in (count \<ge> need, s'))"

text \<open>
  \<^verbatim>\<open>validate_nonce\<close> returns a pair of a flag and a reason; the three pairs it can
  return are named after the outcomes they stand for. The two rejections return
  before the ledger is touched. The
  closing \<^verbatim>\<open>for n in list(self.ledger.keys())\<close> loop visits every key once and deletes
  it when its own timestamp is too old, which is the \<^const>\<open>filter\<close> below.
\<close>

abbreviation Accepted :: "bool \<times> string" where
  "Accepted \<equiv> (True, ''Nonce accepted'')"

abbreviation RejectedReplay :: "bool \<times> string" where
  "RejectedReplay \<equiv> (False, ''Replay detected (nonce already used)'')"

abbreviation RejectedExpired :: "bool \<times> string" where
  "RejectedExpired \<equiv> (False, ''Expired command TTL'')"

definition validate_nonce ::
  "security_engine \<Rightarrow> int \<times> real \<Rightarrow> real \<Rightarrow> (bool \<times> string) \<times> security_engine" where
  "validate_nonce s nonce_ts now =
     (case nonce_ts of (nonce, ts) \<Rightarrow>
        if nonce \<in> fst ` set (ledger s)
        then (RejectedReplay, s)
        else if now - ts > nonce_ttl s
        then (RejectedExpired, s)
        else (Accepted,
              s\<lparr>ledger := filter (\<lambda>(n, t). \<not> now - t > nonce_ttl s)
                                (AList.update nonce ts (ledger s))\<rparr>))"

text \<open>
  \<^verbatim>\<open>check_rate_limit\<close>: the \<^verbatim>\<open>while\<close> loop pops from the left of the deque while the
  oldest entry is outside the window.
\<close>

definition check_rate_limit :: "security_engine \<Rightarrow> real \<Rightarrow> bool \<times> security_engine" where
  "check_rate_limit s now =
     (let q = dropWhile (\<lambda>t. now - t > rate_window s) (cmd_times s @ [now])
      in (int (length q) \<le> max_cmds s, s\<lparr>cmd_times := q\<rparr>))"

text \<open>The table of \<^verbatim>\<open>incident\<close> with its \<^verbatim>\<open>.get(kind, 0.3)\<close> default.\<close>

definition delta :: "string \<Rightarrow> real" where
  "delta kind =
     (case map_of [(''replay_fail'', 0.7), (''rate_limit'', 0.5), (''rogue_node'', 0.9),
                   (''network_compromise'', 0.6), (''civilian'', 1.0),
                   (''out_of_control'', 0.8)] kind of
        Some d \<Rightarrow> d
      | None \<Rightarrow> 0.3)"

definition incident :: "security_engine \<Rightarrow> string \<Rightarrow> security_engine" where
  "incident s kind = s\<lparr>anomaly_score := min 3.0 (anomaly_score s + delta kind)\<rparr>"

definition decay_anomaly :: "security_engine \<Rightarrow> security_engine" where
  "decay_anomaly s = s\<lparr>anomaly_score := max 0.0 (anomaly_score s - 0.02)\<rparr>"

text \<open>The four strings \<^verbatim>\<open>failsafe_state\<close> returns, least restrictive first.\<close>

datatype failsafe = NONE | DEGRADE | HOLD | RTB

fun rank :: "failsafe \<Rightarrow> nat" where
  "rank NONE = 0"
| "rank DEGRADE = 1"
| "rank HOLD = 2"
| "rank RTB = 3"

definition failsafe_state :: "security_engine \<Rightarrow> failsafe" where
  "failsafe_state s =
     (if anomaly_score s \<ge> 2.2 then RTB
      else if anomaly_score s \<ge> 1.3 then HOLD
      else if anomaly_score s \<ge> 0.6 then DEGRADE
      else NONE)"

text \<open>The \<^verbatim>\<open>K_r\<close> branch of \<^verbatim>\<open>main\<close> writes the score directly.\<close>

definition manual_rtb :: "security_engine \<Rightarrow> security_engine" where
  "manual_rtb s = s\<lparr>anomaly_score := max (anomaly_score s) 2.2\<rparr>"

subsection \<open>Sequences of engine operations\<close>

text \<open>
  One constructor for each method of the engine that changes it, and one for the direct
  write of \<^verbatim>\<open>main\<close>; clock readings are arguments. \<open>run\<close> applies a sequence of them.
\<close>

datatype op =
    Rotate_keys real real
  | Add_approval string real
  | Approvals_ok string real
  | Validate_nonce int real real
  | Check_rate_limit real
  | Incident string
  | Decay_anomaly
  | Manual_rtb

fun step :: "security_engine \<Rightarrow> op \<Rightarrow> security_engine" where
  "step s (Rotate_keys now now') = rotate_keys_if_needed s now now'"
| "step s (Add_approval officer now) = add_approval s officer now"
| "step s (Approvals_ok action now) = snd (approvals_ok s action now)"
| "step s (Validate_nonce nonce ts now) = snd (validate_nonce s (nonce, ts) now)"
| "step s (Check_rate_limit now) = snd (check_rate_limit s now)"
| "step s (Incident kind) = incident s kind"
| "step s Decay_anomaly = decay_anomaly s"
| "step s Manual_rtb = manual_rtb s"

definition run :: "op list \<Rightarrow> security_engine \<Rightarrow> security_engine" where
  "run ops s = foldl step s ops"

text \<open>The clock readings of the nonce validations of a sequence, in order.\<close>

fun nonce_clock :: "op list \<Rightarrow> real list" where
  "nonce_clock [] = []"
| "nonce_clock (Validate_nonce nonce ts now # ops) = now # nonce_clock ops"
| "nonce_clock (_ # ops) = nonce_clock ops"

text \<open>
  For the history of a sequence: the time of each officer's latest approval, and the
  clock readings of the quorum checks (which are the purges of stale approvals).
\<close>

fun granted :: "op list \<Rightarrow> string \<Rightarrow> real option" where
  "granted [] = Map.empty"
| "granted (Add_approval officer now # ops) =
     (\<lambda>k. case granted ops k of
            Some t \<Rightarrow> Some t
          | None \<Rightarrow> if k = officer then Some now else None)"
| "granted (_ # ops) = granted ops"

fun quorum_clock :: "op list \<Rightarrow> real list" where
  "quorum_clock [] = []"
| "quorum_clock (Approvals_ok action now # ops) = now # quorum_clock ops"
| "quorum_clock (_ # ops) = quorum_clock ops"

text \<open>What a Python dict guarantees of the two tables: no key twice.\<close>

definition unique_keys :: "security_engine \<Rightarrow> bool" where
  "unique_keys s = (distinct (map fst (approvals s)) \<and> distinct (map fst (ledger s)))"

section \<open>The module-level state and the workflows\<close>

text \<open>
  Of the module's globals, those the engagement workflow and the kill switch read or
  write. The robots are objects shared between the two army lists and
  \<^verbatim>\<open>selected_robot\<close>, so they live in a store indexed by address; the lists and the
  selection hold addresses (an address in no list is not in use). Of a robot, only the
  fields the kill functions read or write are kept.
\<close>

record robot =
  team :: string
  alive :: bool
  state :: string

record sim =
  SECURITY :: security_engine
  kill_switch_armed :: bool
  robots :: "nat \<Rightarrow> robot"
  friendly_robots :: "nat list"
  enemy_robots :: "nat list"
  selected_robot :: "nat option"

text \<open>\<^verbatim>\<open>Robot.kill\<close>, on the object and on the store.\<close>

definition kill :: "robot \<Rightarrow> robot" where
  "kill r = (if alive r then r\<lparr>alive := False, state := ''SHUTDOWN''\<rparr> else r)"

definition kill_at :: "nat \<Rightarrow> sim \<Rightarrow> sim" where
  "kill_at a g = g\<lparr>robots := (robots g)(a := kill (robots g a))\<rparr>"

definition kill_selected_robot :: "sim \<Rightarrow> sim" where
  "kill_selected_robot g =
     (case selected_robot g of
        None \<Rightarrow> g
      | Some a \<Rightarrow> if alive (robots g a) then kill_at a g else g)"

definition kill_selected_army :: "sim \<Rightarrow> sim" where
  "kill_selected_army g =
     (case selected_robot g of
        None \<Rightarrow> g
      | Some a \<Rightarrow>
          let side = team (robots g a);
              army = (if side = ''FRIENDLY'' then friendly_robots g else enemy_robots g)
          in fold kill_at army g)"

definition kill_all_robots :: "sim \<Rightarrow> sim" where
  "kill_all_robots g = fold kill_at (friendly_robots g @ enemy_robots g) g"

text \<open>
  The module-level state when the module has been loaded (\<open>now\<close> is the clock reading
  of \<^verbatim>\<open>SecurityEngine()\<close>), and \<^verbatim>\<open>spawn_armies\<close>, which puts ten new robots in each
  list: the friendly ones at addresses 0 to 9, the enemy ones at 10 to 19.
\<close>

definition module_state :: "real \<Rightarrow> sim" where
  "module_state now =
     \<lparr> SECURITY = init now, kill_switch_armed = False,
       robots = (\<lambda>a. \<lparr>team = ''FRIENDLY'', alive = True, state = ''IDLE''\<rparr>),
       friendly_robots = [], enemy_robots = [], selected_robot = None \<rparr>"

definition spawn_armies :: "sim \<Rightarrow> sim" where
  "spawn_armies g =
     g\<lparr> robots := (\<lambda>a. \<lparr>team = (if a < 10 then ''FRIENDLY'' else ''ENEMY''),
                            alive = True, state = ''IDLE''\<rparr>),
        friendly_robots := [0..<10], enemy_robots := [10..<20] \<rparr>"

text \<open>
  \<^verbatim>\<open>start_engagement_workflow\<close>. \<open>t1\<close>, \<open>t2\<close> and \<open>t3\<close> are the clock readings of
  \<^verbatim>\<open>approvals_ok\<close>, \<^verbatim>\<open>check_rate_limit\<close> and \<^verbatim>\<open>validate_nonce\<close>; \<open>nonce\<close> and \<open>ts\<close> are
  the \<^verbatim>\<open>random.randint(1, 10**7)\<close> and the \<^verbatim>\<open>time.time()\<close> of the tuple passed to
  \<^verbatim>\<open>validate_nonce\<close>.
\<close>

definition start_engagement_workflow ::
  "sim \<Rightarrow> real \<Rightarrow> real \<Rightarrow> int \<Rightarrow> real \<Rightarrow> real \<Rightarrow> bool \<times> sim" where
  "start_engagement_workflow g t1 t2 nonce ts t3 =
     (case approvals_ok (SECURITY g) ''engage'' t1 of (ok1, s1) \<Rightarrow>
        if \<not> ok1 then (False, g\<lparr>SECURITY := s1\<rparr>)
        else
          (case check_rate_limit s1 t2 of (ok2, s2) \<Rightarrow>
             if \<not> ok2 then (False, g\<lparr>SECURITY := incident s2 ''rate_limit''\<rparr>)
             else
               (case validate_nonce s2 (nonce, ts) t3 of ((ok, reason), s3) \<Rightarrow>
                  if \<not> ok then (False, g\<lparr>SECURITY := incident s3 ''replay_fail''\<rparr>)
                  else (True, g\<lparr>SECURITY := s3\<rparr>))))"

definition arm_kill_switch :: "sim \<Rightarrow> sim" where
  "arm_kill_switch g = g\<lparr>kill_switch_armed := True\<rparr>"

text \<open>
  \<^verbatim>\<open>execute_kill_switch\<close> returns \<^verbatim>\<open>None\<close> on each of its three exits; the model returns
  which exit was taken: \<open>DeniedNotArmed\<close> is the return after "Kill-switch not armed",
  \<open>DeniedQuorum\<close> the return after "Approvals insufficient", \<open>Executed\<close> the end of the
  function.
\<close>

datatype kill_outcome = Executed | DeniedNotArmed | DeniedQuorum

definition dispatch :: "string \<Rightarrow> sim \<Rightarrow> sim" where
  "dispatch kind g =
     (if kind = ''unit'' then kill_selected_robot g
      else if kind = ''army'' then kill_selected_army g
      else kill_all_robots g)"

definition execute_kill_switch :: "sim \<Rightarrow> string \<Rightarrow> real \<Rightarrow> kill_outcome \<times> sim" where
  "execute_kill_switch g kind now =
     (if \<not> kill_switch_armed g then (DeniedNotArmed, g)
      else
        (case approvals_ok (SECURITY g) ''kill'' now of (ok, s1) \<Rightarrow>
           if \<not> ok then (DeniedQuorum, g\<lparr>SECURITY := s1\<rparr>)
           else (Executed, (dispatch kind (g\<lparr>SECURITY := s1\<rparr>))\<lparr>kill_switch_armed := False\<rparr>)))"

section \<open>The black box ledger\<close>


definition newline :: char where
  "newline = CHR 0x0A"











subsection \<open>What the specification says of the stored chain\<close>

text \<open>
  These definitions follow the specification, not the code. An entry is a stored
  (timestamp, text) pair; its payload is the text that follows the separator on its
  line. \<open>spec_chain\<close> recomputes the hashes from a first \<open>prev\<close> over a list of entries;
  \<open>hashed\<close> lists the strings that are hashed on the way; \<open>stored_file\<close> writes hashes and
  entries in the format of the persisted ledger, one record per line; \<open>kept\<close> are the
  entries of the calls whose write went through.
\<close>

type_synonym entry = "string \<times> string"

definition payload_of :: "entry \<Rightarrow> string" where
  "payload_of e = fst e @ '' '' @ snd e"



definition stored_line :: "string \<Rightarrow> entry \<Rightarrow> string" where
  "stored_line h e = h @ '' | '' @ payload_of e @ [newline]"




section \<open>Facts about the engine\<close>

lemmas engine_defs =
  rotate_keys_if_needed_def add_approval_def approvals_ok_def clear_old_approvals_def
  validate_nonce_def check_rate_limit_def incident_def decay_anomaly_def manual_rtb_def

lemma run_Nil: "run [] s = s"
  by (simp add: run_def)

lemma run_Cons: "run (x # ops) s = run ops (step s x)"
  by (simp add: run_def)

lemma run_append: "run (ops @ ops') s = run ops' (run ops s)"
  by (simp add: run_def)

lemma run_snoc: "run (ops @ [x]) s = step (run ops s) x"
  by (simp add: run_def)

subsection \<open>Settings never change; dict keys stay unique\<close>

lemma settings_step:
  "approvals_ttl (step s x) = approvals_ttl s \<and> nonce_ttl (step s x) = nonce_ttl s \<and>
   required_engage (step s x) = required_engage s \<and> required_kill (step s x) = required_kill s"
  by (cases x) (auto simp: engine_defs Let_def)

lemma settings_run:
  "approvals_ttl (run ops s) = approvals_ttl s \<and> nonce_ttl (run ops s) = nonce_ttl s \<and>
   required_engage (run ops s) = required_engage s \<and> required_kill (run ops s) = required_kill s"
proof (induction ops arbitrary: s)
  case Nil
  show ?case by (simp add: run_Nil)
next
  case (Cons x ops)
  show ?case using Cons[of "step s x"] settings_step[of s x] by (simp only: run_Cons)
qed

lemma unique_keys_step: "unique_keys s \<Longrightarrow> unique_keys (step s x)"
  by (cases x)
    (auto simp: unique_keys_def engine_defs Let_def distinct_update distinct_map_filter)

lemma unique_keys_run: "unique_keys s \<Longrightarrow> unique_keys (run ops s)"
proof (induction ops arbitrary: s)
  case Nil
  then show ?case by (simp add: run_Nil)
next
  case (Cons x ops)
  then show ?case by (simp only: run_Cons unique_keys_step)
qed

lemma unique_keys_init: "unique_keys (init t0)"
  by (simp add: unique_keys_def init_def)

subsection \<open>The anomaly score\<close>

lemma delta_nonneg: "0 \<le> delta kind"
  by (simp add: delta_def)

lemma score_step:
  assumes "0 \<le> anomaly_score s" "anomaly_score s \<le> 3"
  shows "0 \<le> anomaly_score (step s x) \<and> anomaly_score (step s x) \<le> 3"
proof (cases x)
  case (Incident kind)
  with assms delta_nonneg[of kind] show ?thesis by (simp add: incident_def)
qed (use assms in \<open>auto simp: engine_defs Let_def\<close>)

lemma score_run:
  assumes "0 \<le> anomaly_score s" "anomaly_score s \<le> 3"
  shows "0 \<le> anomaly_score (run ops s) \<and> anomaly_score (run ops s) \<le> 3"
  using assms
proof (induction ops arbitrary: s)
  case Nil
  then show ?case by (simp add: run_Nil)
next
  case (Cons x ops)
  from score_step[OF Cons.prems, of x] Cons.IH[of "step s x"]
  show ?case by (simp only: run_Cons)
qed

lemma delta_default:
  "kind \<notin> {''replay_fail'', ''rate_limit'', ''rogue_node'', ''network_compromise'',
            ''civilian'', ''out_of_control''} \<Longrightarrow> delta kind = 0.3"
  by (simp add: delta_def)

text \<open>
  C6. The score starts at 0 and stays in \<open>[0, 3]\<close> under every sequence of operations
  (and under each single one): an incident adds the weight of its kind, capped at 3;
  the weights are 0.7, 0.5, 0.9, 0.6, 1.0 and 0.8 for the six named kinds and 0.3 for
  any other; a decay step subtracts 0.02, floored at 0.
\<close>

theorem anomaly_score_in_range:
  "anomaly_score (init t0) = 0 \<and>
   0 \<le> anomaly_score (run ops (init t0)) \<and> anomaly_score (run ops (init t0)) \<le> 3 \<and>
   (0 \<le> anomaly_score s \<and> anomaly_score s \<le> 3 \<longrightarrow>
      0 \<le> anomaly_score (step s x) \<and> anomaly_score (step s x) \<le> 3) \<and>
   anomaly_score (incident s kind) = min 3 (anomaly_score s + delta kind) \<and>
   delta ''replay_fail'' = 0.7 \<and> delta ''rate_limit'' = 0.5 \<and> delta ''rogue_node'' = 0.9 \<and>
   delta ''network_compromise'' = 0.6 \<and> delta ''civilian'' = 1.0 \<and>
   delta ''out_of_control'' = 0.8 \<and>
   (kind \<notin> {''replay_fail'', ''rate_limit'', ''rogue_node'', ''network_compromise'',
              ''civilian'', ''out_of_control''} \<longrightarrow> delta kind = 0.3) \<and>
   anomaly_score (decay_anomaly s) = max 0 (anomaly_score s - 0.02)"
proof -
  have "anomaly_score (init t0) = 0"
    by (simp add: init_def)
  moreover from this have
    "0 \<le> anomaly_score (run ops (init t0)) \<and> anomaly_score (run ops (init t0)) \<le> 3"
    by (intro score_run) simp_all
  moreover have "delta ''replay_fail'' = 0.7" "delta ''rate_limit'' = 0.5"
    "delta ''rogue_node'' = 0.9" "delta ''network_compromise'' = 0.6"
    "delta ''civilian'' = 1.0" "delta ''out_of_control'' = 0.8"
    by (simp_all add: delta_def)
  moreover have "anomaly_score (incident s kind) = min 3 (anomaly_score s + delta kind)"
    "anomaly_score (decay_anomaly s) = max 0 (anomaly_score s - 0.02)"
    by (simp_all add: incident_def decay_anomaly_def)
  ultimately show ?thesis
    using score_step[of s x] delta_default[of kind] by blast
qed

theorem anomaly_score_in_range_witness:
  "anomaly_score (run [Incident ''civilian'', Incident ''civilian'', Incident ''rogue_node'',
                       Incident ''jamming'', Decay_anomaly] (init 0)) = 2.98 \<and>
   anomaly_score (step (incident (init 0) ''jamming'') Decay_anomaly) = 0.28 \<and>
   delta ''jamming'' = 0.3"
  using anomaly_score_in_range[of 0 "[]" "incident (init 0) ''jamming''" Decay_anomaly "''jamming''"]
  by (simp add: run_def incident_def decay_anomaly_def init_def delta_def)

subsection \<open>The failsafe ladder\<close>

text \<open>
  C5. \<^verbatim>\<open>failsafe_state\<close> is defined for every score: RTB from 2.2 on, HOLD on
  \<open>[1.3, 2.2)\<close>, DEGRADE on \<open>[0.6, 1.3)\<close>, NONE below 0.6, each boundary belonging to the
  higher mode; and a higher score never gives a less restrictive mode.
\<close>

theorem failsafe_state_ladder:
  "(failsafe_state s = RTB \<longleftrightarrow> 2.2 \<le> anomaly_score s) \<and>
   (failsafe_state s = HOLD \<longleftrightarrow> 1.3 \<le> anomaly_score s \<and> anomaly_score s < 2.2) \<and>
   (failsafe_state s = DEGRADE \<longleftrightarrow> 0.6 \<le> anomaly_score s \<and> anomaly_score s < 1.3) \<and>
   (failsafe_state s = NONE \<longleftrightarrow> anomaly_score s < 0.6) \<and>
   (anomaly_score s1 \<le> anomaly_score s2 \<longrightarrow>
      rank (failsafe_state s1) \<le> rank (failsafe_state s2))"
proof -
  have intervals:
    "failsafe_state s = RTB \<longleftrightarrow> 2.2 \<le> anomaly_score s"
    "failsafe_state s = HOLD \<longleftrightarrow> 1.3 \<le> anomaly_score s \<and> anomaly_score s < 2.2"
    "failsafe_state s = DEGRADE \<longleftrightarrow> 0.6 \<le> anomaly_score s \<and> anomaly_score s < 1.3"
    "failsafe_state s = NONE \<longleftrightarrow> anomaly_score s < 0.6"
    by (simp_all add: failsafe_state_def)
  have "rank (failsafe_state s1) \<le> rank (failsafe_state s2)"
    if le: "anomaly_score s1 \<le> anomaly_score s2"
  proof (cases "failsafe_state s2")
    case RTB
    then show ?thesis by (cases "failsafe_state s1") simp_all
  next
    case HOLD
    then have "anomaly_score s2 < 2.2" by (simp add: failsafe_state_def split: if_splits)
    with le have "failsafe_state s1 \<noteq> RTB" by (simp add: failsafe_state_def)
    with HOLD show ?thesis by (cases "failsafe_state s1") simp_all
  next
    case DEGRADE
    then have "anomaly_score s2 < 1.3" by (simp add: failsafe_state_def split: if_splits)
    with le have "failsafe_state s1 \<noteq> RTB" "failsafe_state s1 \<noteq> HOLD"
      by (simp_all add: failsafe_state_def)
    with DEGRADE show ?thesis by (cases "failsafe_state s1") simp_all
  next
    case NONE
    then have "anomaly_score s2 < 0.6" by (simp add: failsafe_state_def split: if_splits)
    with le have "failsafe_state s1 = NONE" by (simp add: failsafe_state_def)
    with NONE show ?thesis by simp
  qed
  with intervals show ?thesis by blast
qed

theorem failsafe_state_ladder_witness:
  "anomaly_score (incident (init 0) ''civilian'')
     \<le> anomaly_score (run [Incident ''civilian'', Incident ''civilian''] (init 0)) \<and>
   failsafe_state (incident (init 0) ''civilian'') = DEGRADE \<and>
   failsafe_state (run [Incident ''civilian'', Incident ''civilian''] (init 0)) = HOLD \<and>
   failsafe_state (manual_rtb (init 0)) = RTB \<and>
   rank (failsafe_state (incident (init 0) ''civilian''))
     \<le> rank (failsafe_state (run [Incident ''civilian'', Incident ''civilian''] (init 0)))"
  using failsafe_state_ladder[of "manual_rtb (init 0)" "incident (init 0) ''civilian''"
      "run [Incident ''civilian'', Incident ''civilian''] (init 0)"]
  by (simp add: run_def incident_def manual_rtb_def init_def delta_def failsafe_state_def)

subsection \<open>The nonce ledger\<close>

lemma accepted_iff:
  "fst (fst (validate_nonce s (nonce, ts) now)) \<longleftrightarrow>
     nonce \<notin> fst ` set (ledger s) \<and> now - ts \<le> nonce_ttl s"
  by (auto simp: validate_nonce_def)

lemma rejected_unchanged:
  "\<not> fst (fst (validate_nonce s (nonce, ts) now)) \<Longrightarrow> snd (validate_nonce s (nonce, ts) now) = s"
  by (auto simp: validate_nonce_def split: if_splits)

lemma accepted_ledger:
  "fst (fst (validate_nonce s (nonce, ts) now)) \<Longrightarrow>
     ledger (snd (validate_nonce s (nonce, ts) now)) =
       filter (\<lambda>(n, t). \<not> now - t > nonce_ttl s) (AList.update nonce ts (ledger s))"
  by (auto simp: validate_nonce_def split: if_splits)

lemma update_entry: "(k, v) \<in> set (AList.update k v al)"
  by (induction al) auto

lemma key_of_lookup: "map_of al k = Some v \<Longrightarrow> k \<in> fst ` set al"
  by (metis domI dom_map_of_conv_image_fst)

text \<open>
  C7. The replay check comes first (whatever the timestamp), then the expiry check,
  then the insertion. From a new engine (\<^verbatim>\<open>nonce_ttl = 20\<close>): nonce 42 issued and
  validated at 0 is accepted, nonce 42 again at 5 is a replay, nonce 43 issued at -25
  and validated at 0 is expired.
\<close>

theorem validate_nonce_checks:
  "(nonce \<in> fst ` set (ledger s) \<longrightarrow>
      validate_nonce s (nonce, ts) now = (RejectedReplay, s)) \<and>
   (nonce \<notin> fst ` set (ledger s) \<and> now - ts > nonce_ttl s \<longrightarrow>
      validate_nonce s (nonce, ts) now = (RejectedExpired, s)) \<and>
   (nonce \<notin> fst ` set (ledger s) \<and> \<not> now - ts > nonce_ttl s \<longrightarrow>
      fst (validate_nonce s (nonce, ts) now) = Accepted \<and>
      (nonce, ts) \<in> set (ledger (snd (validate_nonce s (nonce, ts) now)))) \<and>
   nonce_ttl (init t0) = 20 \<and>
   fst (validate_nonce (init t0) (42, 0) 0) = Accepted \<and>
   fst (validate_nonce (run [Validate_nonce 42 0 0] (init t0)) (42, ts) 5) = RejectedReplay \<and>
   fst (validate_nonce (run [Validate_nonce 42 0 0] (init t0)) (43, - 25) 0) = RejectedExpired"
proof -
  have "nonce \<notin> fst ` set (ledger s) \<and> \<not> now - ts > nonce_ttl s \<longrightarrow>
      (nonce, ts) \<in> set (ledger (snd (validate_nonce s (nonce, ts) now)))"
    using update_entry[of nonce ts "ledger s"] by (simp add: validate_nonce_def)
  moreover have "nonce_ttl (init t0) = 20"
    "fst (validate_nonce (init t0) (42, 0) 0) = Accepted"
    "fst (validate_nonce (run [Validate_nonce 42 0 0] (init t0)) (42, ts) 5) = RejectedReplay"
    "fst (validate_nonce (run [Validate_nonce 42 0 0] (init t0)) (43, - 25) 0) = RejectedExpired"
    by (simp_all add: run_def validate_nonce_def init_def)
  ultimately show ?thesis
    by (simp add: validate_nonce_def)
qed

theorem validate_nonce_checks_witness:
  "validate_nonce (run [Validate_nonce 7 1 1] (init 0)) (7, 2) 2 =
     (RejectedReplay, run [Validate_nonce 7 1 1] (init 0)) \<and>
   validate_nonce (run [Validate_nonce 7 1 1] (init 0)) (8, 2) 23 =
     (RejectedExpired, run [Validate_nonce 7 1 1] (init 0)) \<and>
   fst (validate_nonce (run [Validate_nonce 7 1 1] (init 0)) (8, 3) 23) = Accepted \<and>
   ledger (snd (validate_nonce (run [Validate_nonce 7 1 1] (init 0)) (8, 3) 23)) = [(8, 3)]"
  using validate_nonce_checks[of 7 "run [Validate_nonce 7 1 1] (init 0)" 2 2]
    validate_nonce_checks[of 8 "run [Validate_nonce 7 1 1] (init 0)" 23 2]
    validate_nonce_checks[of 8 "run [Validate_nonce 7 1 1] (init 0)" 23 3]
  by (simp add: run_def validate_nonce_def init_def)

text \<open>
  C9 as stated fails: a rejected call returns before the pruning loop. After nonce 1
  was accepted at time 0, a replay of it at time 100 and an expired nonce 2 at time 100
  are both rejected and the entry of nonce 1, then 100 seconds old, is still in the
  ledger.
\<close>

theorem prune_on_rejection_counterexample:
  "fst (validate_nonce (run [Validate_nonce 1 0 0] (init 0)) (1, 100) 100) = RejectedReplay \<and>
   ledger (snd (validate_nonce (run [Validate_nonce 1 0 0] (init 0)) (1, 100) 100)) = [(1, 0)] \<and>
   fst (validate_nonce (run [Validate_nonce 1 0 0] (init 0)) (2, 50) 100) = RejectedExpired \<and>
   ledger (snd (validate_nonce (run [Validate_nonce 1 0 0] (init 0)) (2, 50) 100)) = [(1, 0)] \<and>
   100 - 0 > nonce_ttl (run [Validate_nonce 1 0 0] (init 0))"
  by (simp add: run_def validate_nonce_def init_def)

text \<open>
  C9, amended. An accepted call stores the nonce and then removes exactly the entries
  older than \<^verbatim>\<open>nonce_ttl\<close> at \<open>now\<close>: the new ledger holds the entries of the updated
  ledger that are not older, so none older is left and the new entry is there. A
  rejected call leaves the engine, and so the ledger, as it was.
\<close>

theorem prune_on_accept_only:
  "(fst (validate_nonce s (nonce, ts) now) = Accepted \<longrightarrow>
      set (ledger (snd (validate_nonce s (nonce, ts) now))) =
        {(n, t). (n, t) \<in> set (AList.update nonce ts (ledger s)) \<and> now - t \<le> nonce_ttl s} \<and>
      (\<forall>(n, t) \<in> set (ledger (snd (validate_nonce s (nonce, ts) now))). now - t \<le> nonce_ttl s) \<and>
      (nonce, ts) \<in> set (ledger (snd (validate_nonce s (nonce, ts) now)))) \<and>
   (fst (validate_nonce s (nonce, ts) now) \<noteq> Accepted \<longrightarrow>
      snd (validate_nonce s (nonce, ts) now) = s)"
  using update_entry[of nonce ts "ledger s"]
  by (auto simp: validate_nonce_def)

theorem prune_on_accept_only_witness:
  "fst (validate_nonce (run [Validate_nonce 1 0 0] (init 0)) (2, 30) 30) = Accepted \<and>
   ledger (run [Validate_nonce 1 0 0] (init 0)) = [(1, 0)] \<and>
   set (ledger (snd (validate_nonce (run [Validate_nonce 1 0 0] (init 0)) (2, 30) 30))) = {(2, 30)} \<and>
   fst (validate_nonce (run [Validate_nonce 1 0 0] (init 0)) (1, 30) 30) \<noteq> Accepted \<and>
   snd (validate_nonce (run [Validate_nonce 1 0 0] (init 0)) (1, 30) 30) =
     run [Validate_nonce 1 0 0] (init 0)"
  using prune_on_accept_only[of "run [Validate_nonce 1 0 0] (init 0)" 2 30 30]
    prune_on_accept_only[of "run [Validate_nonce 1 0 0] (init 0)" 1 30 30]
  by (simp add: run_def validate_nonce_def init_def)

text \<open>
  What keeps a replay out: once the command \<open>(n, ts)\<close> is in the ledger, at every later
  moment either it is still there or the clock has passed \<open>ts + nonce_ttl\<close>. \<open>T\<close> is the
  latest clock reading so far.
\<close>

lemma spent_validate:
  assumes "map_of (ledger s) n = Some ts \<or> T - ts > nonce_ttl s" and "T \<le> now"
  shows "map_of (ledger (snd (validate_nonce s (m, ts') now))) n = Some ts
         \<or> now - ts > nonce_ttl s"
proof (cases "now - ts > nonce_ttl s")
  case True
  then show ?thesis by simp
next
  case False
  with assms have live: "map_of (ledger s) n = Some ts" by auto
  show ?thesis
  proof (cases "fst (fst (validate_nonce s (m, ts') now))")
    case False
    with live show ?thesis by (simp add: rejected_unchanged)
  next
    case True
    then have "m \<notin> fst ` set (ledger s)" by (simp add: accepted_iff)
    with key_of_lookup[OF live] have "m \<noteq> n" by auto
    with live have "map_of (AList.update m ts' (ledger s)) n = Some ts"
      by (simp add: update_conv')
    with False have
      "map_of (filter (\<lambda>(k, t). \<not> now - t > nonce_ttl s) (AList.update m ts' (ledger s))) n
         = Some ts"
      by (simp add: map_of_filter_in)
    then show ?thesis by (simp add: accepted_ledger[OF True])
  qed
qed

lemma ledger_step_other:
  "\<forall>m ts' now. x \<noteq> Validate_nonce m ts' now \<Longrightarrow> ledger (step s x) = ledger s"
  by (cases x) (auto simp: engine_defs Let_def)

lemma nonce_clock_other:
  "\<forall>m ts' now. x \<noteq> Validate_nonce m ts' now \<Longrightarrow> nonce_clock (x # ops) = nonce_clock ops"
  by (cases x) auto

lemma spent_run:
  assumes "map_of (ledger s) n = Some ts \<or> T - ts > nonce_ttl s"
      and "sorted (T # nonce_clock ops)"
  shows "map_of (ledger (run ops s)) n = Some ts
         \<or> last (T # nonce_clock ops) - ts > nonce_ttl s"
  using assms
proof (induction ops arbitrary: s T)
  case Nil
  then show ?case by (simp add: run_Nil)
next
  case (Cons x ops)
  have ttl: "nonce_ttl (step s x) = nonce_ttl s" by (simp only: settings_step)
  show ?case
  proof (cases "\<exists>m ts' now. x = Validate_nonce m ts' now")
    case False
    then have other: "\<forall>m ts' now. x \<noteq> Validate_nonce m ts' now" by blast
    have "map_of (ledger (step s x)) n = Some ts \<or> T - ts > nonce_ttl (step s x)"
      using Cons.prems(1) by (simp only: ledger_step_other[OF other] ttl)
    moreover have "sorted (T # nonce_clock ops)"
      using Cons.prems(2) by (simp only: nonce_clock_other[OF other])
    ultimately show ?thesis
      using Cons.IH[of "step s x" T]
      by (simp only: run_Cons nonce_clock_other[OF other] ttl)
  next
    case True
    then obtain m ts' now where x: "x = Validate_nonce m ts' now" by blast
    from Cons.prems(2) have le: "T \<le> now" and so: "sorted (now # nonce_clock ops)"
      by (auto simp: x)
    have "map_of (ledger (step s x)) n = Some ts \<or> now - ts > nonce_ttl (step s x)"
      using spent_validate[OF Cons.prems(1) le, of m ts'] unfolding ttl by (simp add: x)
    from Cons.IH[OF this so]
    have "map_of (ledger (run ops (step s x))) n = Some ts
          \<or> last (now # nonce_clock ops) - ts > nonce_ttl s"
      by (simp only: ttl)
    moreover have "last (T # nonce_clock (x # ops)) = last (now # nonce_clock ops)"
      by (simp add: x)
    ultimately show ?thesis
      by (simp only: run_Cons)
  qed
qed

text \<open>
  C2 as stated fails: pruning frees the nonce value. Nonce 42 is accepted at time 0;
  the acceptance of nonce 43 at time 30 prunes the entry of 42; nonce 42 with the fresh
  timestamp 31 is accepted a second time at time 31. The clock only moves forward here.
\<close>

theorem nonce_accepted_twice_counterexample:
  "fst (validate_nonce (init 0) (42, 0) 0) = Accepted \<and>
   fst (validate_nonce (run [Validate_nonce 42 0 0] (init 0)) (43, 30) 30) = Accepted \<and>
   fst (validate_nonce (run [Validate_nonce 42 0 0, Validate_nonce 43 30 30] (init 0)) (42, 31) 31)
     = Accepted"
  by (simp add: run_def validate_nonce_def init_def)

text \<open>
  The clock matters: had it gone back to 10 after the pruning at 30, the very command
  \<open>(42, 0)\<close> would have been accepted again.
\<close>

lemma replay_accepted_when_clock_goes_back:
  "fst (validate_nonce (run [Validate_nonce 42 0 0, Validate_nonce 43 30 30] (init 0)) (42, 0) 10)
     = Accepted"
  by (simp add: run_def validate_nonce_def init_def)

text \<open>
  C2, amended. What is spent for good is the command, not the nonce value: once
  \<open>(nonce, ts)\<close> has been accepted, then after any sequence of operations whose nonce
  validations read a clock that does not go backwards, validating the same
  \<open>(nonce, ts)\<close> again is rejected: as a replay while the nonce is in the ledger, as
  expired once it has been pruned.
\<close>

theorem replay_rejected:
  assumes acc: "fst (validate_nonce s (nonce, ts) now) = Accepted"
    and mono: "sorted (now # nonce_clock ops @ [now'])"
  shows "fst (validate_nonce (run ops (snd (validate_nonce s (nonce, ts) now))) (nonce, ts) now') =
           (if nonce \<in> fst ` set (ledger (run ops (snd (validate_nonce s (nonce, ts) now))))
            then RejectedReplay else RejectedExpired)"
proof -
  let ?s1 = "snd (validate_nonce s (nonce, ts) now)"
  let ?S = "run ops ?s1"
  from acc have acc': "fst (fst (validate_nonce s (nonce, ts) now))" by simp
  then have fresh: "now - ts \<le> nonce_ttl s" by (simp add: accepted_iff)
  have ttl1: "nonce_ttl ?s1 = nonce_ttl s"
    using settings_step[of s "Validate_nonce nonce ts now"] by simp
  have ttl: "nonce_ttl ?S = nonce_ttl s"
    by (simp only: settings_run ttl1)
  have "map_of (AList.update nonce ts (ledger s)) nonce = Some ts"
    by (simp add: update_conv')
  with fresh have "map_of (ledger ?s1) nonce = Some ts"
    by (simp add: accepted_ledger[OF acc'] map_of_filter_in)
  moreover from mono have "sorted (now # nonce_clock ops)"
    and "last (now # nonce_clock ops) \<le> now'"
    by (auto simp: sorted_append)
  ultimately have "map_of (ledger ?S) nonce = Some ts \<or> now' - ts > nonce_ttl s"
    using spent_run[of ?s1 nonce ts now ops] by (auto simp: ttl1)
  then have "nonce \<in> fst ` set (ledger ?S) \<or> now' - ts > nonce_ttl ?S"
    using key_of_lookup[of "ledger ?S" nonce ts] by (auto simp: ttl)
  then show ?thesis
    unfolding validate_nonce_def[of ?S] by auto
qed

theorem replay_rejected_witness:
  "fst (validate_nonce (init 0) (42, 0) 0) = Accepted \<and>
   sorted (0 # nonce_clock [Decay_anomaly, Validate_nonce 43 30 30] @ [31 :: real]) \<and>
   fst (validate_nonce (run [Decay_anomaly, Validate_nonce 43 30 30]
          (snd (validate_nonce (init 0) (42, 0) 0))) (42, 0) 31) = RejectedExpired \<and>
   sorted (0 # nonce_clock [Decay_anomaly] @ [5 :: real]) \<and>
   fst (validate_nonce (run [Decay_anomaly] (snd (validate_nonce (init 0) (42, 0) 0))) (42, 0) 5)
     = RejectedReplay"
  using replay_rejected[of "init 0" 42 0 0 "[Decay_anomaly, Validate_nonce 43 30 30]" 31]
    replay_rejected[of "init 0" 42 0 0 "[Decay_anomaly]" 5]
  by (simp add: run_def validate_nonce_def decay_anomaly_def init_def)

subsection \<open>The approval quorum\<close>

lemma fresh_count:
  assumes "distinct (map fst al)"
  shows "length (filter P al) = card (fst ` set (filter P al))"
proof -
  have "distinct (map fst (filter P al))"
    using assms by (rule distinct_map_filter)
  then have "card (set (map fst (filter P al))) = length (map fst (filter P al))"
    by (rule distinct_card)
  then show ?thesis by simp
qed

lemma quorum_unique_keys:
  assumes "unique_keys s"
  shows "fst (approvals_ok s action now) \<longleftrightarrow>
     (if action = ''engage'' then required_engage s else required_kill s)
       \<le> int (card (fst ` {(officer, t). (officer, t) \<in> set (approvals s) \<and>
                                          now - t \<le> approvals_ttl s}))"
proof -
  have "{(officer, t). (officer, t) \<in> set (approvals s) \<and> now - t \<le> approvals_ttl s}
      = set (filter (\<lambda>(k, t). now - t \<le> approvals_ttl s) (approvals s))"
    by auto
  moreover from assms have "distinct (map fst (approvals s))"
    by (simp add: unique_keys_def)
  ultimately show ?thesis
    using fresh_count[of "approvals s" "\<lambda>(k, t). now - t \<le> approvals_ttl s"]
    by (simp add: approvals_ok_def clear_old_approvals_def Let_def)
qed

lemma granted_snoc:
  "granted (ops @ [x]) =
     (case x of Add_approval officer now \<Rightarrow> (granted ops)(officer \<mapsto> now) | _ \<Rightarrow> granted ops)"
proof (induction ops rule: granted.induct)
  case 1
  show ?case by (cases x) (auto simp: fun_eq_iff)
qed (auto simp: fun_eq_iff split: op.splits option.splits)

lemma quorum_clock_snoc:
  "set (quorum_clock (ops @ [x])) =
     (case x of Approvals_ok action now \<Rightarrow> insert now (set (quorum_clock ops))
      | _ \<Rightarrow> set (quorum_clock ops))"
  by (induction ops rule: quorum_clock.induct) (auto split: op.splits)

lemma map_of_filter_distinct:
  assumes "distinct (map fst al)"
  shows "map_of (filter (\<lambda>(k, v). P k v) al) k = Some v \<longleftrightarrow> map_of al k = Some v \<and> P k v"
  using assms
  by (induction al) (auto simp: rev_image_eqI dest!: map_of_SomeD)

text \<open>
  The table against the history: what is in the table is the officer's latest
  approval, and a latest approval missing from the table was stale at some quorum
  check.
\<close>

lemma store_history:
  fixes ops t0
  defines "S \<equiv> run ops (init t0)"
  shows "(map_of (approvals S) k = Some t \<longrightarrow> granted ops k = Some t) \<and>
         (granted ops k = Some t \<longrightarrow> map_of (approvals S) k = Some t \<or>
            (\<exists>T \<in> set (quorum_clock ops). T - t > 12))"
  unfolding S_def
proof (induction ops arbitrary: k t rule: rev_induct)
  case Nil
  show ?case by (simp add: run_Nil init_def)
next
  case (snoc x ops)
  let ?S = "run ops (init t0)"
  have ttl: "approvals_ttl ?S = 12" by (simp add: settings_run) (simp add: init_def)
  have d: "distinct (map fst (approvals ?S))"
    using unique_keys_run[OF unique_keys_init, of ops t0] by (simp add: unique_keys_def)
  show ?case
  proof (cases x)
    case (Add_approval officer now)
    then have "approvals (run (ops @ [x]) (init t0)) = AList.update officer now (approvals ?S)"
      by (simp add: run_snoc add_approval_def)
    with snoc[of k t] Add_approval show ?thesis
      by (auto simp: granted_snoc quorum_clock_snoc update_conv')
  next
    case (Approvals_ok action now)
    then have "approvals (run (ops @ [x]) (init t0)) =
        filter (\<lambda>(k, t). now - t \<le> 12) (approvals ?S)"
      by (simp add: run_snoc approvals_ok_def clear_old_approvals_def Let_def ttl)
    with snoc[of k t] Approvals_ok map_of_filter_distinct[OF d, of "\<lambda>k t. now - t \<le> 12" k t]
    show ?thesis
      by (auto simp: granted_snoc quorum_clock_snoc)
  next
    case (Rotate_keys a b)
    with snoc[of k t] show ?thesis
      by (simp add: run_snoc granted_snoc quorum_clock_snoc rotate_keys_if_needed_def)
  next
    case (Validate_nonce n ts now)
    with snoc[of k t] show ?thesis
      by (simp add: run_snoc granted_snoc quorum_clock_snoc validate_nonce_def)
  next
    case (Check_rate_limit now)
    with snoc[of k t] show ?thesis
      by (simp add: run_snoc granted_snoc quorum_clock_snoc check_rate_limit_def Let_def)
  next
    case (Incident kind)
    with snoc[of k t] show ?thesis
      by (simp add: run_snoc granted_snoc quorum_clock_snoc incident_def)
  next
    case Decay_anomaly
    with snoc[of k t] show ?thesis
      by (simp add: run_snoc granted_snoc quorum_clock_snoc decay_anomaly_def)
  next
    case Manual_rtb
    with snoc[of k t] show ?thesis
      by (simp add: run_snoc granted_snoc quorum_clock_snoc manual_rtb_def)
  qed
qed

lemma quorum_from_history:
  assumes "\<forall>T \<in> set (quorum_clock ops). T \<le> now"
  shows "fst (approvals_ok (run ops (init t0)) action now) \<longleftrightarrow>
           2 \<le> card {officer. \<exists>t. granted ops officer = Some t \<and> now - t \<le> 12}"
proof -
  let ?S = "run ops (init t0)"
  have d: "distinct (map fst (approvals ?S))"
    using unique_keys_run[OF unique_keys_init, of ops t0] by (simp add: unique_keys_def)
  have "fst ` {(officer, t). (officer, t) \<in> set (approvals ?S) \<and> now - t \<le> approvals_ttl ?S}
      = {officer. \<exists>t. granted ops officer = Some t \<and> now - t \<le> 12}" (is "?A = ?B")
  proof
    show "?A \<subseteq> ?B"
      using store_history[of ops t0] d by (auto simp: settings_run init_def)
    show "?B \<subseteq> ?A"
    proof
      fix k assume "k \<in> ?B"
      then obtain t where g: "granted ops k = Some t" and f: "now - t \<le> 12" by auto
      from store_history[of ops t0 k t] g assms f have "map_of (approvals ?S) k = Some t"
        by fastforce
      then have "(k, t) \<in> set (approvals ?S)" by (rule map_of_SomeD)
      with f show "k \<in> ?A" by (force simp: settings_run init_def)
    qed
  qed
  then show ?thesis
    using quorum_unique_keys[OF unique_keys_run[OF unique_keys_init], of ops t0 action now]
    by (simp add: settings_run) (simp add: init_def)
qed

text \<open>
  C4. In every engine reached from a new one by any sequence of operations, and at
  every time \<open>now\<close>, \<^verbatim>\<open>approvals_ok\<close> answers true exactly when the officers holding a
  recorded approval with \<open>now - granted_at \<le> approvals_ttl\<close>, counted once each, are at
  least as many as the action requires. A new engine has \<^verbatim>\<open>approvals_ttl = 12\<close> and
  requires 2 for either action. Read against the sequence itself: when no earlier
  quorum check read a later clock than \<open>now\<close>, these officers are those whose latest
  approval in the sequence is no older than 12. One officer approving three times never reaches the
  quorum; approvals by A at 0 and by B at 5 give a quorum at 10 and none at 13.
\<close>

theorem quorum_counts_distinct_fresh:
  "(fst (approvals_ok (run ops (init t0)) action now) \<longleftrightarrow>
      (if action = ''engage'' then required_engage (run ops (init t0))
       else required_kill (run ops (init t0)))
        \<le> int (card (fst ` {(officer, t). (officer, t) \<in> set (approvals (run ops (init t0))) \<and>
                                now - t \<le> approvals_ttl (run ops (init t0))}))) \<and>
   approvals_ttl (run ops (init t0)) = 12 \<and>
   required_engage (run ops (init t0)) = 2 \<and> required_kill (run ops (init t0)) = 2 \<and>
   ((\<forall>T \<in> set (quorum_clock ops). T \<le> now) \<longrightarrow>
      (fst (approvals_ok (run ops (init t0)) action now) \<longleftrightarrow>
         2 \<le> card {officer. \<exists>t. granted ops officer = Some t \<and> now - t \<le> 12})) \<and>
   \<not> fst (approvals_ok
           (run [Add_approval ''A'' t1, Add_approval ''A'' t2, Add_approval ''A'' t3] (init t0))
           action now) \<and>
   fst (approvals_ok (run [Add_approval ''A'' 0, Add_approval ''B'' 5] (init t0)) ''engage'' 10) \<and>
   \<not> fst (approvals_ok (run [Add_approval ''A'' 0, Add_approval ''B'' 5] (init t0)) ''engage'' 13)"
proof -
  have "unique_keys (run ops (init t0))"
    by (intro unique_keys_run unique_keys_init)
  note quorum_unique_keys[OF this, of action now]
  moreover note quorum_from_history[of ops now t0 action]
  moreover have "approvals_ttl (run ops (init t0)) = 12"
    "required_engage (run ops (init t0)) = 2" "required_kill (run ops (init t0)) = 2"
    by (simp_all add: settings_run) (simp_all add: init_def)
  moreover have "\<not> fst (approvals_ok
           (run [Add_approval ''A'' t1, Add_approval ''A'' t2, Add_approval ''A'' t3] (init t0))
           action now)"
    by (simp add: run_def approvals_ok_def clear_old_approvals_def add_approval_def init_def
        Let_def)
  moreover have
    "fst (approvals_ok (run [Add_approval ''A'' 0, Add_approval ''B'' 5] (init t0)) ''engage'' 10)"
    "\<not> fst (approvals_ok (run [Add_approval ''A'' 0, Add_approval ''B'' 5] (init t0)) ''engage'' 13)"
    by (simp_all add: run_def approvals_ok_def clear_old_approvals_def add_approval_def init_def
        Let_def)
  ultimately show ?thesis by blast
qed

theorem quorum_counts_distinct_fresh_witness:
  "quorum_clock [Add_approval ''A'' 0, Add_approval ''B'' 5,
       Approvals_ok ''engage'' 13, Add_approval ''A'' 14] = [13] \<and> (13 :: real) \<le> 17 \<and>
   approvals (run [Add_approval ''A'' 0, Add_approval ''B'' 5, Approvals_ok ''engage'' 13,
                   Add_approval ''A'' 14] (init 0)) = [(''B'', 5), (''A'', 14)] \<and>
   fst (approvals_ok (run [Add_approval ''A'' 0, Add_approval ''B'' 5, Approvals_ok ''engage'' 13,
                           Add_approval ''A'' 14] (init 0)) ''kill'' 17) \<and>
   2 \<le> int (card (fst ` {(officer, t).
      (officer, t) \<in> set (approvals (run [Add_approval ''A'' 0, Add_approval ''B'' 5,
         Approvals_ok ''engage'' 13, Add_approval ''A'' 14] (init 0))) \<and>
      17 - t \<le> approvals_ttl (run [Add_approval ''A'' 0, Add_approval ''B'' 5,
         Approvals_ok ''engage'' 13, Add_approval ''A'' 14] (init 0))})) \<and>
   2 \<le> card {officer. \<exists>t. granted [Add_approval ''A'' 0, Add_approval ''B'' 5,
       Approvals_ok ''engage'' 13, Add_approval ''A'' 14] officer = Some t \<and> 17 - t \<le> 12}"
  using quorum_counts_distinct_fresh[of
      "[Add_approval ''A'' 0, Add_approval ''B'' 5, Approvals_ok ''engage'' 13,
        Add_approval ''A'' 14]" 0 "''kill''" 17]
  by (simp add: run_def add_approval_def init_def approvals_ok_def clear_old_approvals_def
      Let_def)

section \<open>Facts about the workflows\<close>

subsection \<open>The engagement workflow\<close>

text \<open>Each gate leaves alone what the other gates read.\<close>

lemma approvals_ok_frame:
  "cmd_times (snd (approvals_ok s a t)) = cmd_times s \<and>
   rate_window (snd (approvals_ok s a t)) = rate_window s \<and>
   max_cmds (snd (approvals_ok s a t)) = max_cmds s \<and>
   ledger (snd (approvals_ok s a t)) = ledger s \<and>
   nonce_ttl (snd (approvals_ok s a t)) = nonce_ttl s \<and>
   anomaly_score (snd (approvals_ok s a t)) = anomaly_score s"
  by (simp add: approvals_ok_def clear_old_approvals_def Let_def)

lemma check_rate_limit_frame:
  "approvals (snd (check_rate_limit s t)) = approvals s \<and>
   ledger (snd (check_rate_limit s t)) = ledger s \<and>
   nonce_ttl (snd (check_rate_limit s t)) = nonce_ttl s \<and>
   anomaly_score (snd (check_rate_limit s t)) = anomaly_score s"
  by (simp add: check_rate_limit_def Let_def)

lemma validate_nonce_frame:
  "approvals (snd (validate_nonce s nt t)) = approvals s \<and>
   cmd_times (snd (validate_nonce s nt t)) = cmd_times s \<and>
   anomaly_score (snd (validate_nonce s nt t)) = anomaly_score s"
  by (cases nt) (simp add: validate_nonce_def)

lemma rate_after_quorum:
  "fst (check_rate_limit (snd (approvals_ok s a t1)) t2) = fst (check_rate_limit s t2) \<and>
   cmd_times (snd (check_rate_limit (snd (approvals_ok s a t1)) t2)) =
     cmd_times (snd (check_rate_limit s t2))"
  by (simp add: check_rate_limit_def approvals_ok_def clear_old_approvals_def Let_def)

lemma nonce_after_rate:
  "fst (validate_nonce (snd (check_rate_limit (snd (approvals_ok s a t1)) t2)) nt t3) =
     fst (validate_nonce s nt t3) \<and>
   ledger (snd (validate_nonce (snd (check_rate_limit (snd (approvals_ok s a t1)) t2)) nt t3)) =
     ledger (snd (validate_nonce s nt t3))"
  by (cases nt)
     (simp add: validate_nonce_def check_rate_limit_def approvals_ok_def clear_old_approvals_def Let_def)

text \<open>
  So the three verdicts can be read off the engine the workflow starts with.
\<close>

lemma workflow_unfold:
  "start_engagement_workflow g t1 t2 nonce ts t3 =
     (let s1 = snd (approvals_ok (SECURITY g) ''engage'' t1);
          s2 = snd (check_rate_limit s1 t2);
          s3 = snd (validate_nonce s2 (nonce, ts) t3)
      in if \<not> fst (approvals_ok (SECURITY g) ''engage'' t1) then (False, g\<lparr>SECURITY := s1\<rparr>)
         else if \<not> fst (check_rate_limit (SECURITY g) t2)
           then (False, g\<lparr>SECURITY := incident s2 ''rate_limit''\<rparr>)
         else if \<not> fst (fst (validate_nonce (SECURITY g) (nonce, ts) t3))
           then (False, g\<lparr>SECURITY := incident s3 ''replay_fail''\<rparr>)
         else (True, g\<lparr>SECURITY := s3\<rparr>))"
  by (simp add: start_engagement_workflow_def split_def Let_def rate_after_quorum
      nonce_after_rate)

text \<open>
  C3. \<^verbatim>\<open>start_engagement_workflow\<close> asks the quorum first, the rate limiter only when
  the quorum holds, the nonce ledger only when both hold, and returns at the first
  refusal. It changes nothing but the engine, and \<^verbatim>\<open>approvals_ok\<close> has always purged the
  approvals. A quorum refusal raises no incident and leaves the rate window, the nonce
  ledger and the score as they were. A rate-limit refusal raises the incident
  \<^verbatim>\<open>rate_limit\<close> (weight 0.5) and leaves the nonce ledger alone. A nonce refusal raises an
  incident too (\<^verbatim>\<open>replay_fail\<close>). When all three pass, no incident is raised.
\<close>

theorem engagement_gates_in_order:
  fixes g t1 t2 nonce ts t3
  defines "E \<equiv> SECURITY g"
    and "W \<equiv> start_engagement_workflow g t1 t2 nonce ts t3"
  defines "quorum \<equiv> fst (approvals_ok E ''engage'' t1)"
    and "rate \<equiv> fst (check_rate_limit E t2)"
    and "nonce_ok \<equiv> fst (fst (validate_nonce E (nonce, ts) t3))"
    and "E' \<equiv> SECURITY (snd W)"
  shows
   "snd W = g\<lparr>SECURITY := E'\<rparr> \<and>
    approvals E' = approvals (snd (approvals_ok E ''engage'' t1)) \<and>
    (\<not> quorum \<longrightarrow> \<not> fst W \<and> E' = snd (approvals_ok E ''engage'' t1) \<and>
        cmd_times E' = cmd_times E \<and> ledger E' = ledger E \<and>
        anomaly_score E' = anomaly_score E) \<and>
    (quorum \<and> \<not> rate \<longrightarrow> \<not> fst W \<and>
        E' = incident (snd (check_rate_limit (snd (approvals_ok E ''engage'' t1)) t2)) ''rate_limit'' \<and>
        cmd_times E' = cmd_times (snd (check_rate_limit E t2)) \<and> ledger E' = ledger E \<and>
        anomaly_score E' = min 3 (anomaly_score E + 0.5)) \<and>
    (quorum \<and> rate \<and> \<not> nonce_ok \<longrightarrow> \<not> fst W \<and>
        cmd_times E' = cmd_times (snd (check_rate_limit E t2)) \<and> ledger E' = ledger E \<and>
        anomaly_score E' = min 3 (anomaly_score E + delta ''replay_fail'')) \<and>
    (quorum \<and> rate \<and> nonce_ok \<longrightarrow> fst W \<and>
        cmd_times E' = cmd_times (snd (check_rate_limit E t2)) \<and>
        ledger E' = ledger (snd (validate_nonce E (nonce, ts) t3)) \<and>
        anomaly_score E' = anomaly_score E)"
  unfolding E'_def W_def quorum_def rate_def nonce_ok_def E_def workflow_unfold Let_def
  using rate_after_quorum[of "SECURITY g" "''engage''" t1 t2]
    nonce_after_rate[of "SECURITY g" "''engage''" t1 t2 "(nonce, ts)" t3]
    rejected_unchanged[of "snd (check_rate_limit (snd (approvals_ok (SECURITY g) ''engage'' t1)) t2)" nonce ts t3]
  by (simp add: approvals_ok_frame check_rate_limit_frame validate_nonce_frame incident_def delta_def)

theorem engagement_gates_in_order_witness:
  "start_engagement_workflow (module_state 0) 1 1 77 1 1 = (False, module_state 0) \<and>
   fst (start_engagement_workflow
     ((module_state 0)\<lparr>SECURITY := run [Add_approval ''A'' 0, Add_approval ''C'' 0] (init 0)\<rparr>)
      1 1 77 1 1) \<and>
   \<not> fst (start_engagement_workflow
     ((module_state 0)\<lparr>SECURITY := run [Add_approval ''A'' 0, Add_approval ''C'' 0] (init 0)\<rparr>)
      1 1 77 1 30) \<and>
   anomaly_score (SECURITY (snd (start_engagement_workflow
     ((module_state 0)\<lparr>SECURITY := run [Add_approval ''A'' 0, Add_approval ''C'' 0] (init 0)\<rparr>)
      1 1 77 1 30))) = 0.7 \<and>
   \<not> fst (start_engagement_workflow
     ((module_state 0)\<lparr>SECURITY := run [Add_approval ''A'' 0, Add_approval ''C'' 0,
        Check_rate_limit 0, Check_rate_limit 0, Check_rate_limit 0, Check_rate_limit 0,
        Check_rate_limit 0, Check_rate_limit 0, Check_rate_limit 0, Check_rate_limit 0] (init 0)\<rparr>)
      1 1 77 1 1) \<and>
   anomaly_score (SECURITY (snd (start_engagement_workflow
     ((module_state 0)\<lparr>SECURITY := run [Add_approval ''A'' 0, Add_approval ''C'' 0,
        Check_rate_limit 0, Check_rate_limit 0, Check_rate_limit 0, Check_rate_limit 0,
        Check_rate_limit 0, Check_rate_limit 0, Check_rate_limit 0, Check_rate_limit 0] (init 0)\<rparr>)
      1 1 77 1 1))) = 0.5 \<and>
   ledger (SECURITY (snd (start_engagement_workflow
     ((module_state 0)\<lparr>SECURITY := run [Add_approval ''A'' 0, Add_approval ''C'' 0,
        Check_rate_limit 0, Check_rate_limit 0, Check_rate_limit 0, Check_rate_limit 0,
        Check_rate_limit 0, Check_rate_limit 0, Check_rate_limit 0, Check_rate_limit 0] (init 0)\<rparr>)
      1 1 77 1 1))) = []"
  using engagement_gates_in_order[of "module_state 0" 1 1 77 1 1]
    engagement_gates_in_order[of
      "(module_state 0)\<lparr>SECURITY := run [Add_approval ''A'' 0, Add_approval ''C'' 0] (init 0)\<rparr>"
      1 1 77 1 30]
    engagement_gates_in_order[of
      "(module_state 0)\<lparr>SECURITY := run [Add_approval ''A'' 0, Add_approval ''C'' 0,
        Check_rate_limit 0, Check_rate_limit 0, Check_rate_limit 0, Check_rate_limit 0,
        Check_rate_limit 0, Check_rate_limit 0, Check_rate_limit 0, Check_rate_limit 0] (init 0)\<rparr>"
      1 1 77 1 1]
  by (simp add: start_engagement_workflow_def module_state_def run_def init_def
      approvals_ok_def clear_old_approvals_def add_approval_def check_rate_limit_def
      validate_nonce_def incident_def delta_def Let_def)

subsection \<open>The kill switch\<close>

lemma kill_at_frame:
  "SECURITY (kill_at a g) = SECURITY g \<and> kill_switch_armed (kill_at a g) = kill_switch_armed g \<and>
   friendly_robots (kill_at a g) = friendly_robots g \<and> enemy_robots (kill_at a g) = enemy_robots g \<and>
   selected_robot (kill_at a g) = selected_robot g"
  by (simp add: kill_at_def)

lemma kill_at_upd:
  "kill_at a (g\<lparr>SECURITY := s\<rparr>) = (kill_at a g)\<lparr>SECURITY := s\<rparr>"
  "kill_at a (g\<lparr>kill_switch_armed := b\<rparr>) = (kill_at a g)\<lparr>kill_switch_armed := b\<rparr>"
  by (simp_all add: kill_at_def)

lemma fold_kill_at_upd:
  "fold kill_at as (g\<lparr>SECURITY := s\<rparr>) = (fold kill_at as g)\<lparr>SECURITY := s\<rparr>"
  "fold kill_at as (g\<lparr>kill_switch_armed := b\<rparr>) = (fold kill_at as g)\<lparr>kill_switch_armed := b\<rparr>"
  by (induction as arbitrary: g) (simp_all add: kill_at_upd)

lemma fold_kill_at_frame:
  "SECURITY (fold kill_at as g) = SECURITY g \<and>
   kill_switch_armed (fold kill_at as g) = kill_switch_armed g"
  by (induction as arbitrary: g) (simp_all add: kill_at_frame)

lemma robots_kill_at:
  "robots (kill_at b g) a = (if a = b then kill (robots g a) else robots g a)"
  by (simp add: kill_at_def)

lemma kill_idem: "kill (kill r) = kill r"
  by (simp add: kill_def)

lemma robots_fold_kill_at:
  "robots (fold kill_at as g) a = (if a \<in> set as then kill (robots g a) else robots g a)"
proof (induction as arbitrary: g)
  case Nil
  show ?case by simp
next
  case (Cons b as)
  show ?case by (simp add: Cons robots_kill_at kill_idem)
qed

lemma dispatch_upd:
  "dispatch kind (g\<lparr>SECURITY := s\<rparr>) = (dispatch kind g)\<lparr>SECURITY := s\<rparr>"
  "dispatch kind (g\<lparr>kill_switch_armed := b\<rparr>) = (dispatch kind g)\<lparr>kill_switch_armed := b\<rparr>"
  by (simp_all add: dispatch_def kill_selected_robot_def kill_selected_army_def kill_all_robots_def
      kill_at_upd fold_kill_at_upd Let_def split: option.splits)

lemma dispatch_frame:
  "SECURITY (dispatch kind g) = SECURITY g \<and>
   kill_switch_armed (dispatch kind g) = kill_switch_armed g"
  by (simp add: dispatch_def kill_selected_robot_def kill_selected_army_def kill_all_robots_def
      kill_at_frame fold_kill_at_frame Let_def split: option.splits)

lemma execute_unfold:
  "execute_kill_switch g kind now =
     (if \<not> kill_switch_armed g then (DeniedNotArmed, g)
      else if \<not> fst (approvals_ok (SECURITY g) ''kill'' now)
        then (DeniedQuorum, g\<lparr>SECURITY := snd (approvals_ok (SECURITY g) ''kill'' now)\<rparr>)
      else (Executed, (dispatch kind g)\<lparr>SECURITY := snd (approvals_ok (SECURITY g) ''kill'' now),
                                          kill_switch_armed := False\<rparr>))"
  by (simp add: execute_kill_switch_def split_def dispatch_upd)

text \<open>
  C1. Not armed: \<^verbatim>\<open>execute_kill_switch\<close> takes the "not armed" exit and changes nothing.
  Armed by \<^verbatim>\<open>arm_kill_switch\<close> and with the kill quorum met at execution time: it runs
  to the end, the world is the one the scoped kill function leaves, the flag is reset,
  and a second call (any scope, any time, so also while the quorum still holds) takes
  the "not armed" exit. It runs to the end only when armed and with the quorum, and
  then always resets the flag; on the other two exits the flag and the robots are
  untouched.
\<close>

theorem kill_switch_two_phase:
  fixes g kind now kind' now'
  defines "quorum \<equiv> fst (approvals_ok (SECURITY g) ''kill'' now)"
    and "X \<equiv> execute_kill_switch g kind now"
    and "AX \<equiv> execute_kill_switch (arm_kill_switch g) kind now"
  shows
   "(\<not> kill_switch_armed g \<longrightarrow> X = (DeniedNotArmed, g)) \<and>
    kill_switch_armed (arm_kill_switch g) \<and>
    (quorum \<longrightarrow>
       fst AX = Executed \<and>
       \<not> kill_switch_armed (snd AX) \<and>
       robots (snd AX) = robots (dispatch kind g) \<and>
       execute_kill_switch (snd AX) kind' now' = (DeniedNotArmed, snd AX)) \<and>
    (fst X = Executed \<longleftrightarrow> kill_switch_armed g \<and> quorum) \<and>
    (fst X = Executed \<longrightarrow> \<not> kill_switch_armed (snd X)) \<and>
    (fst X \<noteq> Executed \<longrightarrow> kill_switch_armed (snd X) = kill_switch_armed g \<and>
       robots (snd X) = robots g)"
  unfolding quorum_def X_def AX_def execute_unfold
  by (simp add: arm_kill_switch_def dispatch_frame execute_unfold dispatch_upd)

theorem kill_switch_two_phase_witness:
  "fst (approvals_ok (run [Add_approval ''A'' 0, Add_approval ''B'' 0] (init 0)) ''kill'' 1) \<and>
   fst (execute_kill_switch (arm_kill_switch ((spawn_armies (module_state 0))
          \<lparr>SECURITY := run [Add_approval ''A'' 0, Add_approval ''B'' 0] (init 0),
            selected_robot := Some 3\<rparr>)) ''unit'' 1) = Executed \<and>
   \<not> alive (robots (snd (execute_kill_switch (arm_kill_switch ((spawn_armies (module_state 0))
          \<lparr>SECURITY := run [Add_approval ''A'' 0, Add_approval ''B'' 0] (init 0),
            selected_robot := Some 3\<rparr>)) ''unit'' 1)) 3) \<and>
   fst (approvals_ok (SECURITY (snd (execute_kill_switch (arm_kill_switch
          ((spawn_armies (module_state 0))
          \<lparr>SECURITY := run [Add_approval ''A'' 0, Add_approval ''B'' 0] (init 0),
            selected_robot := Some 3\<rparr>)) ''unit'' 1))) ''kill'' 2) \<and>
   fst (execute_kill_switch (snd (execute_kill_switch (arm_kill_switch
          ((spawn_armies (module_state 0))
          \<lparr>SECURITY := run [Add_approval ''A'' 0, Add_approval ''B'' 0] (init 0),
            selected_robot := Some 3\<rparr>)) ''unit'' 1)) ''fleet'' 2) = DeniedNotArmed \<and>
   execute_kill_switch (spawn_armies (module_state 0)) ''army'' 1 =
     (DeniedNotArmed, spawn_armies (module_state 0)) \<and>
   fst (execute_kill_switch (arm_kill_switch (spawn_armies (module_state 0))) ''army'' 1) =
     DeniedQuorum \<and>
   kill_switch_armed (snd (execute_kill_switch (arm_kill_switch (spawn_armies (module_state 0)))
     ''army'' 1))"
  using kill_switch_two_phase[of "(spawn_armies (module_state 0))
          \<lparr>SECURITY := run [Add_approval ''A'' 0, Add_approval ''B'' 0] (init 0),
            selected_robot := Some 3\<rparr>" "''unit''" 1 "''fleet''" 2]
    kill_switch_two_phase[of "spawn_armies (module_state 0)" "''army''" 1 "''army''" 1]
    kill_switch_two_phase[of "arm_kill_switch (spawn_armies (module_state 0))" "''army''" 1 "''army''" 1]
  by (simp add: execute_kill_switch_def arm_kill_switch_def spawn_armies_def module_state_def
      dispatch_def kill_selected_robot_def kill_at_def kill_def
      run_def init_def approvals_ok_def clear_old_approvals_def add_approval_def Let_def)

text \<open>
  C10. \<^verbatim>\<open>validate_nonce\<close> has three outcomes. When the workflow reaches the nonce gate
  and the outcome is a replay, the incident raised is \<^verbatim>\<open>replay_fail\<close>; when the outcome
  is an expired nonce, the incident raised is \<^verbatim>\<open>replay_fail\<close> as well; in both cases
  the score goes up by 0.7 (capped at 3).
\<close>

theorem nonce_failure_raises_replay_fail:
  fixes g t1 t2 nonce ts t3
  defines "E \<equiv> SECURITY g"
    and "W \<equiv> start_engagement_workflow g t1 t2 nonce ts t3"
  defines "reached \<equiv> fst (approvals_ok E ''engage'' t1) \<and> fst (check_rate_limit E t2)"
    and "outcome \<equiv> fst (validate_nonce E (nonce, ts) t3)"
    and "S2 \<equiv> snd (check_rate_limit (snd (approvals_ok E ''engage'' t1)) t2)"
  shows
   "outcome \<in> {Accepted, RejectedReplay, RejectedExpired} \<and>
    (reached \<and> outcome = RejectedReplay \<longrightarrow>
       W = (False, g\<lparr>SECURITY := incident S2 ''replay_fail''\<rparr>) \<and>
       anomaly_score (SECURITY (snd W)) = min 3 (anomaly_score E + 0.7)) \<and>
    (reached \<and> outcome = RejectedExpired \<longrightarrow>
       W = (False, g\<lparr>SECURITY := incident S2 ''replay_fail''\<rparr>) \<and>
       anomaly_score (SECURITY (snd W)) = min 3 (anomaly_score E + 0.7)) \<and>
    (reached \<and> outcome = Accepted \<longrightarrow>
       fst W \<and> anomaly_score (SECURITY (snd W)) = anomaly_score E) \<and>
    delta ''replay_fail'' = 0.7"
proof -
  have out: "outcome \<in> {Accepted, RejectedReplay, RejectedExpired}"
    unfolding outcome_def by (simp add: validate_nonce_def)
  have rej: "\<not> fst outcome \<Longrightarrow> snd (validate_nonce S2 (nonce, ts) t3) = S2"
    unfolding outcome_def S2_def E_def
    using nonce_after_rate[of "SECURITY g" "''engage''" t1 t2 "(nonce, ts)" t3]
      rejected_unchanged[of "snd (check_rate_limit (snd (approvals_ok (SECURITY g) ''engage'' t1)) t2)" nonce ts t3]
    by simp
  have score: "anomaly_score S2 = anomaly_score E"
    unfolding S2_def by (simp add: check_rate_limit_frame approvals_ok_frame)
  have d: "delta ''replay_fail'' = 0.7" by (simp add: delta_def)
  have "reached \<and> \<not> fst outcome \<longrightarrow>
       W = (False, g\<lparr>SECURITY := incident S2 ''replay_fail''\<rparr>) \<and>
       anomaly_score (SECURITY (snd W)) = min 3 (anomaly_score E + 0.7)"
    using rej score
    unfolding W_def workflow_unfold Let_def reached_def outcome_def E_def S2_def
    by (simp add: incident_def delta_def)
  moreover have "reached \<and> outcome = Accepted \<longrightarrow>
       fst W \<and> anomaly_score (SECURITY (snd W)) = anomaly_score E"
    unfolding W_def workflow_unfold Let_def reached_def outcome_def E_def
    by (simp add: validate_nonce_frame check_rate_limit_frame approvals_ok_frame)
  ultimately show ?thesis using out d by auto
qed

theorem nonce_failure_raises_replay_fail_witness:
  "fst (validate_nonce (run [Add_approval ''A'' 0, Add_approval ''C'' 0, Validate_nonce 77 0 0]
     (init 0)) (77, 1) 1) = RejectedReplay \<and>
   anomaly_score (SECURITY (snd (start_engagement_workflow
     ((module_state 0)\<lparr>SECURITY :=
        run [Add_approval ''A'' 0, Add_approval ''C'' 0, Validate_nonce 77 0 0] (init 0)\<rparr>)
      1 1 77 1 1))) = 0.7 \<and>
   fst (validate_nonce (run [Add_approval ''A'' 0, Add_approval ''C'' 0, Validate_nonce 77 0 0]
     (init 0)) (78, 1) 30) = RejectedExpired \<and>
   anomaly_score (SECURITY (snd (start_engagement_workflow
     ((module_state 0)\<lparr>SECURITY :=
        run [Add_approval ''A'' 0, Add_approval ''C'' 0, Validate_nonce 77 0 0] (init 0)\<rparr>)
      1 1 78 1 30))) = 0.7"
  using nonce_failure_raises_replay_fail[of "(module_state 0)\<lparr>SECURITY :=
        run [Add_approval ''A'' 0, Add_approval ''C'' 0, Validate_nonce 77 0 0] (init 0)\<rparr>"
      1 1 77 1 1]
    nonce_failure_raises_replay_fail[of "(module_state 0)\<lparr>SECURITY :=
        run [Add_approval ''A'' 0, Add_approval ''C'' 0, Validate_nonce 77 0 0] (init 0)\<rparr>"
      1 1 78 1 30]
  by (simp add: start_engagement_workflow_def module_state_def run_def init_def
      approvals_ok_def clear_old_approvals_def add_approval_def check_rate_limit_def
      validate_nonce_def incident_def delta_def Let_def)

text \<open>
  Both workflows act on the engine through its operations only, so what holds after
  every \<open>run\<close> holds after them.
\<close>

lemma workflow_is_run:
  "\<exists>ops. SECURITY (snd (start_engagement_workflow g t1 t2 nonce ts t3)) = run ops (SECURITY g)"
proof -
  let ?a = "Approvals_ok ''engage'' t1" and ?r = "Check_rate_limit t2"
    and ?v = "Validate_nonce nonce ts t3"
  have "SECURITY (snd (start_engagement_workflow g t1 t2 nonce ts t3)) \<in>
     {run [?a] (SECURITY g), run [?a, ?r, Incident ''rate_limit''] (SECURITY g),
      run [?a, ?r, ?v, Incident ''replay_fail''] (SECURITY g), run [?a, ?r, ?v] (SECURITY g)}"
    by (simp add: start_engagement_workflow_def split_def run_def)
  then show ?thesis by blast
qed

lemma execute_is_run:
  "\<exists>ops. SECURITY (snd (execute_kill_switch g kind now)) = run ops (SECURITY g)"
proof -
  have "SECURITY (snd (execute_kill_switch g kind now)) \<in>
     {run [] (SECURITY g), run [Approvals_ok ''kill'' now] (SECURITY g)}"
    by (simp add: execute_unfold run_def dispatch_frame)
  then show ?thesis by blast
qed

section \<open>Facts about the black box ledger\<close>












lemma stored_line_shape:
  assumes "newline \<notin> set h" "newline \<notin> set (payload_of e)"
  shows "\<exists>x. stored_line h e = x @ [newline] \<and> newline \<notin> set x \<and> x = h @ '' | '' @ payload_of e"
  using assms by (simp add: stored_line_def newline_def)









subsection \<open>A new object continues the chain\<close>








subsection \<open>The chain and its recomputation\<close>



end
